theory Spec2Isabelle
  imports Main "HOL-Library.Sublist"
begin

section \<open>Strings as the program sees them\<close>

text \<open>
  A JavaScript string is modelled as a \<^typ>\<open>string\<close>: one \<^typ>\<open>char\<close> per code unit, so
  \<open>length\<close> is \<open>.length\<close> and \<open>take n\<close> is \<open>.substring(0, n)\<close>. Only code units below 256
  are representable; of the characters that \<open>\s\<close> and \<open>trim()\<close> treat as white space these
  are space, tab, line feed, vertical tab, form feed, carriage return and the no-break space.
\<close>

definition is_space :: "char \<Rightarrow> bool" where
  "is_space c \<longleftrightarrow>
     c \<in> set [CHR '' '', CHR 0x09, CHR 0x0A, CHR 0x0B, CHR 0x0C, CHR 0x0D, CHR 0xA0]"

text \<open>\<open>String.prototype.trim\<close>: white space is removed from both ends.\<close>

definition trim :: "string \<Rightarrow> string" where
  "trim s = rev (dropWhile is_space (rev (dropWhile is_space s)))"

text \<open>
  \<open>s.split(sep)\<close> for a one-character separator: the result is never empty, the empty
  string gives one empty segment, and a trailing separator gives a trailing empty segment.
\<close>

fun split_on :: "char \<Rightarrow> string \<Rightarrow> string list" where
  "split_on sep [] = [[]]"
| "split_on sep (c # cs) =
     (if c = sep then [] # split_on sep cs
      else (case split_on sep cs of
              [] \<Rightarrow> [[c]]
            | seg # segs \<Rightarrow> (c # seg) # segs))"

text \<open>\<open>xs.join(sep)\<close>.\<close>

fun join :: "string \<Rightarrow> string list \<Rightarrow> string" where
  "join sep [] = []"
| "join sep [x] = x"
| "join sep (x # y # ys) = x @ sep @ join sep (y # ys)"

section \<open>Data model (index.ts, lib/model-selector.ts)\<close>

text \<open>
  What can be thrown: the error of \<open>selectModel\<close> after the fallback loop, a
  \<open>TypeError\<close> of the language (a property read on \<open>undefined\<close>), and the error of a
  collaborator.
\<close>

datatype error = NoUsableModel | TypeError | CollaboratorError string

datatype role = User | Assistant | System

record messagePart =
  ptype :: string
  ptext :: "string option"
  synthetic :: bool

text \<open>Of \<open>Message.info\<close> the code reads only \<open>role\<close> and \<open>time.created\<close>.\<close>

record message =
  mrole :: role
  created :: int
  parts :: "messagePart list"

record assistantSummary =
  first_a :: string
  last_a :: string
  time_a :: int

record conversationTurn =
  user_text :: string
  user_time :: int
  assistant :: "assistantSummary option"

record modelInfo =
  providerID :: string
  modelID :: string

datatype selectionSource = Config | Fallback

record 'h modelSelectionResult =
  model :: 'h
  info :: modelInfo
  source :: selectionSource
  reason :: "string option"
  failedModel :: "modelInfo option"

text \<open>
  An entry of the object that \<open>listProviders\<close> resolves to. \<open>selectModel\<close> reads
  \<open>info.source\<close> and \<open>info.info.name\<close> of each entry for its log; \<open>entry_info\<close> is
  \<open>None\<close> for an entry without the inner \<open>info\<close> object, on which the second read
  throws. The registry is the list of the object's entries, in the order of
  \<open>Object.entries\<close>; \<open>providers[id]\<close> is \<open>map_of\<close>.
\<close>

record providerEntry =
  entry_source :: "string option"
  entry_info :: "string option option"

type_synonym registry = "(string \<times> providerEntry) list"

text \<open>
  The external collaborators, each an oracle for the answer of one call: the host client
  (\<open>session.messages\<close>, \<open>session.get\<close>, \<open>session.update\<close>, \<open>tui.showToast\<close>), the
  authentication provider (its import and constructor \<open>new OpencodeAI()\<close>, then
  \<open>getLanguageModel\<close> and \<open>listProviders\<close>) and \<open>generateText\<close>. A call that throws or
  rejects answers \<open>Inl\<close>; so does a \<open>listProviders\<close> that resolves to no object.
  \<open>session.get\<close> answers the parent id of the session, if it has one.
\<close>

record 'h collaborators =
  session_messages :: "string \<Rightarrow> error + message list"
  session_get :: "string \<Rightarrow> error + string option"
  session_update :: "string \<Rightarrow> string \<Rightarrow> error + unit"
  showToast :: "string \<Rightarrow> string \<Rightarrow> error + unit"
  loadAuthProvider :: "error + unit"
  getLanguageModel :: "string \<Rightarrow> string \<Rightarrow> error + 'h"
  listProviders :: "error + registry"
  generateText :: "'h \<Rightarrow> string \<Rightarrow> error + string"

text \<open>
  The configuration read by index.ts. \<open>updateThreshold\<close> counts idle events; \<open>maxTurns\<close>
  and \<open>maxCharsPerMessage\<close> are JavaScript numbers used as \<open>slice\<close> and \<open>substring\<close>
  bounds, so they are integers here and the clamping of those methods is written out.
  index.ts reads the two limits from the configuration object; the revision of
  lib/config.ts at hand does not declare them, so they are fields to be supplied.
\<close>

record pluginConfig =
  enabled :: bool
  debug :: bool
  cmodel :: "string option"
  updateThreshold :: nat
  maxTurns :: int
  maxCharsPerMessage :: int

text \<open>What the plugin does to the outside world, in the order it does it.\<close>

datatype effect = ShowToast string string | SessionUpdate string string

section \<open>ContextExtractor: extractTextOnly, extractSmartContext\<close>

definition extractTextOnly :: "messagePart list \<Rightarrow> string" where
  "extractTextOnly ps =
     trim (join ''\<newline>''
       (map (\<lambda>p. case ptext p of None \<Rightarrow> [] | Some t \<Rightarrow> t)
            (filter (\<lambda>p. ptype p = ''text'' \<and> \<not> synthetic p) ps)))"

text \<open>
  \<open>attach t am\<close> sets \<open>currentTurn.assistant\<close> from the collected assistant messages; the
  code does so only under \<open>assistantMessagesInTurn.length > 0\<close>.
\<close>

definition attach :: "conversationTurn \<Rightarrow> (string \<times> int) list \<Rightarrow> conversationTurn" where
  "attach t am =
     t\<lparr>assistant := Some \<lparr>first_a = fst (hd am), last_a = fst (last am), time_a = snd (hd am)\<rparr>\<rparr>"

text \<open>
  The loop of \<open>extractSmartContext\<close> over \<open>conversationMessages\<close>, with its three
  variables \<open>turns\<close>, \<open>currentTurn\<close> and \<open>assistantMessagesInTurn\<close>; the empty list is the
  code after the loop.
\<close>

fun group_turns ::
  "message list \<Rightarrow> conversationTurn list \<Rightarrow> conversationTurn option \<Rightarrow> (string \<times> int) list
     \<Rightarrow> conversationTurn list" where
  "group_turns [] turns cur am =
     (case cur of
        None \<Rightarrow> turns
      | Some t \<Rightarrow> turns @ [if length am > 0 then attach t am else t])"
| "group_turns (m # ms) turns cur am =
     (if mrole m = User then
        group_turns ms
          (case cur of
             None \<Rightarrow> turns
           | Some t \<Rightarrow> if length am > 0 then turns @ [attach t am] else turns)
          (Some \<lparr>user_text = extractTextOnly (parts m), user_time = created m, assistant = None\<rparr>)
          []
      else if mrole m = Assistant then
        (let assistantText = extractTextOnly (parts m)
         in group_turns ms turns cur
              (if length assistantText > 0 then am @ [(assistantText, created m)] else am))
      else group_turns ms turns cur am)"

definition extractSmartContext :: "message list \<Rightarrow> conversationTurn list" where
  "extractSmartContext messages =
     group_turns (filter (\<lambda>msg. mrole msg = User \<or> mrole msg = Assistant) messages) [] None []"

section \<open>ContextFormatter: truncate, formatContextForTitle\<close>

text \<open>
  \<open>truncate\<close> of index.ts (the name is taken by the record package).
  \<open>substring(0, n)\<close> clamps a negative \<open>n\<close> to 0, as \<open>nat\<close> does.
\<close>

definition truncate_str :: "string \<Rightarrow> int \<Rightarrow> string" where
  "truncate_str text maxLength =
     (if int (length text) \<le> maxLength then text else take (nat maxLength) text @ ''...'')"

text \<open>
  \<open>turns.slice(-maxTurns)\<close>: a negative start counts from the end and is clamped at the
  beginning; a start that is not negative (\<open>maxTurns \<le> 0\<close>) counts from the beginning and
  is clamped at the end, so \<open>maxTurns = 0\<close> selects every turn.
\<close>

definition slice_last :: "int \<Rightarrow> 'a list \<Rightarrow> 'a list" where
  "slice_last n xs =
     (let start = - n; len = int (length xs)
      in if start < 0 then drop (nat (max (len + start) 0)) xs
         else drop (nat (min start len)) xs)"

definition turn_lines :: "int \<Rightarrow> conversationTurn \<Rightarrow> string list" where
  "turn_lines maxChars turn =
     [''User: '' @ truncate_str (user_text turn) maxChars, []] @
     (case assistant turn of
        None \<Rightarrow> []
      | Some a \<Rightarrow>
          (if first_a a = last_a a
           then [''Assistant: '' @ truncate_str (first_a a) maxChars]
           else [''Assistant (initial): '' @ truncate_str (first_a a) maxChars,
                 ''Assistant (final): '' @ truncate_str (last_a a) maxChars]) @ [[]])"

definition formatContextForTitle :: "conversationTurn list \<Rightarrow> int \<Rightarrow> int \<Rightarrow> string" where
  "formatContextForTitle turns maxT maxChars =
     join ''\<newline>'' (concat (map (turn_lines maxChars) (slice_last maxT turns)))"

section \<open>TitleSanitizer: cleanTitle\<close>

text \<open>
  \<open>find_end s\<close> looks for the first \<open></think>\<close> in \<open>s\<close> and answers what follows it: the
  lazy \<open>[\s\S]*?\<close> of the pattern stops at the first end marker.
\<close>

fun find_end :: "string \<Rightarrow> string option" where
  "find_end [] = None"
| "find_end (c # cs) =
     (if prefix ''</think>'' (c # cs) then Some (drop 8 (c # cs)) else find_end cs)"

text \<open>
  \<open>raw.replace(/<think>[\s\S]*?<\/think>\s*/g, "")\<close>: the matcher tries each position from
  left to right; where \<open><think>\<close> starts and an end marker follows, the text up to and
  including the first end marker and the white space after it is dropped and matching
  resumes behind it; everywhere else the character is kept.
\<close>

function remove_think :: "string \<Rightarrow> string" where
  "remove_think [] = []"
| "remove_think (c # cs) =
     (if prefix ''<think>'' (c # cs) then
        (case find_end (drop 7 (c # cs)) of
           None \<Rightarrow> c # remove_think cs
         | Some rest \<Rightarrow> remove_think (dropWhile is_space rest))
      else c # remove_think cs)"
  by pat_completeness auto
termination
proof (relation "measure length")
  have fe: "length r \<le> length s" if "find_end s = Some r" for s r
    using that by (induction s) (auto split: if_splits)
  fix c cs rest
  assume "find_end (drop 7 (c # cs)) = Some rest"
  from fe [OF this] have "length rest \<le> length cs" by simp
  moreover have "length (dropWhile is_space rest) \<le> length rest"
    by (rule length_dropWhile_le)
  ultimately show "(dropWhile is_space rest, c # cs) \<in> measure length" by simp
qed auto

definition cleanTitle :: "string \<Rightarrow> string" where
  "cleanTitle raw =
     (let cleaned = remove_think raw;
          lines = map trim (split_on CHR ''\<newline>'' cleaned);
          cleaned = (case find (\<lambda>line. length line > 0) lines of
                       Some line \<Rightarrow> line
                     | None \<Rightarrow> ''Untitled'')
      in if length cleaned > 100 then take 97 cleaned @ ''...'' else cleaned)"

section \<open>ModelSelector: selectModel (lib/model-selector.ts)\<close>

definition FALLBACK_MODELS :: "(string \<times> string) list" where
  "FALLBACK_MODELS =
     [(''openai'', ''gpt-5-mini''),
      (''anthropic'', ''claude-haiku-4-5''),
      (''google'', ''gemini-2.5-flash''),
      (''deepseek'', ''deepseek-chat''),
      (''xai'', ''grok-4-fast''),
      (''alibaba'', ''qwen3-coder-flash''),
      (''zai'', ''glm-4.5-flash''),
      (''opencode'', ''big-pickle'')]"

definition PROVIDER_PRIORITY :: "string list" where
  "PROVIDER_PRIORITY =
     [''openai'', ''anthropic'', ''google'', ''deepseek'', ''xai'', ''alibaba'', ''zai'',
      ''opencode'']"

text \<open>
  One entry per call of \<open>getLanguageModel\<close>: the provider id, the model id, and whether the
  call returned a model.
\<close>

type_synonym attempt = "string \<times> string \<times> bool"

text \<open>
  The \<open>for\<close> loop over \<open>PROVIDER_PRIORITY\<close>, on the part of the list still to visit. A
  provider is skipped when \<open>providers[providerID]\<close> is missing and when
  \<open>FALLBACK_MODELS[providerID]\<close> is missing or the empty string; a failed resolution is
  caught and the loop continues; the first model returned ends the function. After the
  loop the function throws.
\<close>

fun fallback_loop ::
  "(string \<Rightarrow> string \<Rightarrow> error + 'h) \<Rightarrow> registry \<Rightarrow> modelInfo option \<Rightarrow> string list
     \<Rightarrow> attempt list \<times> (error + 'h modelSelectionResult)" where
  "fallback_loop resolve providers failed [] = ([], Inl NoUsableModel)"
| "fallback_loop resolve providers failed (pid # pids) =
     (case map_of providers pid of
        None \<Rightarrow> fallback_loop resolve providers failed pids
      | Some _ \<Rightarrow>
          (case map_of FALLBACK_MODELS pid of
             None \<Rightarrow> fallback_loop resolve providers failed pids
           | Some fallbackModelID \<Rightarrow>
               if fallbackModelID = [] then fallback_loop resolve providers failed pids
               else
                 (case resolve pid fallbackModelID of
                    Inr m \<Rightarrow>
                      ([(pid, fallbackModelID, True)],
                       Inr \<lparr>model = m,
                            info = \<lparr>providerID = pid, modelID = fallbackModelID\<rparr>,
                            source = Fallback,
                            reason = Some (''Using '' @ pid @ ''/'' @ fallbackModelID),
                            failedModel = failed\<rparr>)
                  | Inl _ \<Rightarrow>
                      (case fallback_loop resolve providers failed pids of
                         (log, res) \<Rightarrow> ((pid, fallbackModelID, False) # log, res)))))"

text \<open>
  The part of \<open>selectModel\<close> behind the configured model, reached when no model is
  configured, when the configured string is malformed and when its resolution failed:
  \<open>await opencodeAI.listProviders()\<close>, the log entry that describes every entry of the
  registry, and the loop. None of the first two stands in a \<open>try\<close>: a rejected call and
  a \<open>TypeError\<close> of the description leave \<open>selectModel\<close> as they are. With
  \<open>logger\<close> undefined \<open>logger?.info(...)\<close> does not evaluate its arguments.
\<close>

definition fallback_phase ::
  "(string \<Rightarrow> string \<Rightarrow> error + 'h) \<Rightarrow> error + registry \<Rightarrow> bool \<Rightarrow> modelInfo option
     \<Rightarrow> attempt list \<times> (error + 'h modelSelectionResult)" where
  "fallback_phase resolve listed with_logger failed =
     (case listed of
        Inl e \<Rightarrow> ([], Inl e)
      | Inr providers \<Rightarrow>
          if with_logger \<and> list_ex (\<lambda>(pid, entry). entry_info entry = None) providers
          then ([], Inl TypeError)
          else fallback_loop resolve providers failed PROVIDER_PRIORITY)"

text \<open>
  \<open>selectModel\<close>, with the collaborator's answers as arguments: the import and the
  constructor of the authentication provider (outside any \<open>try\<close>), \<open>getLanguageModel\<close>,
  \<open>listProviders\<close>, and whether a logger was passed. \<open>if (configModel)\<close> is false for a
  missing and for an empty string. The configured string is split at every \<open>/\<close> and used
  only when that gives exactly two parts (\<open>parts.length !== 2\<close>); any other number of
  parts is logged as an invalid format and the function goes on to the fallback models.
  The module is present in two revisions; they parse the configured string with the same
  lines and walk the same list, and the later one, modelled here, also reports the
  configured model that failed.
\<close>

definition selectModel ::
  "error + unit \<Rightarrow> (string \<Rightarrow> string \<Rightarrow> error + 'h) \<Rightarrow> error + registry \<Rightarrow> bool \<Rightarrow> string option
     \<Rightarrow> attempt list \<times> (error + 'h modelSelectionResult)" where
  "selectModel loaded resolve listed with_logger configModel =
     (case loaded of
        Inl e \<Rightarrow> ([], Inl e)
      | Inr _ \<Rightarrow>
          (case configModel of
             None \<Rightarrow> fallback_phase resolve listed with_logger None
           | Some cm \<Rightarrow>
               if cm = [] then fallback_phase resolve listed with_logger None
               else
                 (case split_on CHR ''/'' cm of
                    [pid, mid] \<Rightarrow>
                      (case resolve pid mid of
                         Inr m \<Rightarrow>
                           ([(pid, mid, True)],
                            Inr \<lparr>model = m,
                                 info = \<lparr>providerID = pid, modelID = mid\<rparr>,
                                 source = Config,
                                 reason =
                                   Some ''Using model specified in smart-title.jsonc config'',
                                 failedModel = None\<rparr>)
                       | Inl _ \<Rightarrow>
                           (case fallback_phase resolve listed with_logger
                                   (Some \<lparr>providerID = pid, modelID = mid\<rparr>) of
                              (log, res) \<Rightarrow> ((pid, mid, False) # log, res)))
                  | _ \<Rightarrow> fallback_phase resolve listed with_logger None)))"

section \<open>UpdateCoordinator: the pipeline and the idle-event handler (index.ts)\<close>

text \<open>
  \<open>generateTitleFromContext\<close>: everything is inside one \<open>try\<close>, whose \<open>catch\<close> returns
  \<open>null\<close>. \<open>selectModel\<close> is called with the logger. The toast is shown when a configured model failed; its own failure is caught
  and ignored. The title prompt, a constant of prompt.ts, is passed in;
  \<open>generation_prompt\<close> is the content of the one message sent to \<open>generateText\<close>.
\<close>

definition generation_prompt :: "string \<Rightarrow> string \<Rightarrow> string" where
  "generation_prompt title_prompt context =
     title_prompt @ ''\<newline>\<newline><conversation>\<newline>'' @ context @
     ''\<newline></conversation>\<newline>\<newline>Output the title now:''"

definition generateTitleFromContext ::
  "'h collaborators \<Rightarrow> string \<Rightarrow> string \<Rightarrow> string option \<Rightarrow> effect list \<times> string option" where
  "generateTitleFromContext env title_prompt context configModel =
     (case snd (selectModel (loadAuthProvider env) (getLanguageModel env) (listProviders env)
                  True configModel) of
        Inl _ \<Rightarrow> ([], None)
      | Inr sel \<Rightarrow>
          (let toasts =
                 (case failedModel sel of
                    None \<Rightarrow> []
                  | Some fm \<Rightarrow>
                      (let title = ''Smart Title: Model fallback'';
                           msg = providerID fm @ ''/'' @ modelID fm @ '' failed\<newline>Using '' @
                                 providerID (info sel) @ ''/'' @ modelID (info sel)
                       in (case showToast env title msg of
                             Inl _ \<Rightarrow> [ShowToast title msg]
                           | Inr _ \<Rightarrow> [ShowToast title msg])))
           in (case generateText env (model sel)
                      (generation_prompt title_prompt context) of
                 Inl _ \<Rightarrow> (toasts, None)
               | Inr text \<Rightarrow> (toasts, Some (cleanTitle text)))))"

text \<open>
  The body of the \<open>try\<close> in \<open>updateSessionTitle\<close>: an exception leaves it as \<open>Inl\<close>.
  \<open>!newTitle\<close> holds for \<open>null\<close> and for the empty string.
\<close>

definition updateSessionTitle_try ::
  "'h collaborators \<Rightarrow> string \<Rightarrow> pluginConfig \<Rightarrow> string \<Rightarrow> effect list \<times> (error + unit)" where
  "updateSessionTitle_try env title_prompt config sessionId =
     (case session_messages env sessionId of
        Inl e \<Rightarrow> ([], Inl e)
      | Inr messages \<Rightarrow>
          (let turns = extractSmartContext messages
           in if length turns = 0 then ([], Inr ())
              else
                (let context = formatContextForTitle turns (maxTurns config)
                                 (maxCharsPerMessage config)
                 in (case generateTitleFromContext env title_prompt context (cmodel config) of
                       (effs, None) \<Rightarrow> (effs, Inr ())
                     | (effs, Some newTitle) \<Rightarrow>
                         if newTitle = [] then (effs, Inr ())
                         else
                           (case session_update env sessionId newTitle of
                              Inl e \<Rightarrow> (effs @ [SessionUpdate sessionId newTitle], Inl e)
                            | Inr _ \<Rightarrow> (effs @ [SessionUpdate sessionId newTitle], Inr ()))))))"

text \<open>\<open>updateSessionTitle\<close>: the \<open>catch\<close> logs the exception and returns.\<close>

definition updateSessionTitle ::
  "'h collaborators \<Rightarrow> string \<Rightarrow> pluginConfig \<Rightarrow> string \<Rightarrow> effect list \<times> (error + unit)" where
  "updateSessionTitle env title_prompt config sessionId =
     (case updateSessionTitle_try env title_prompt config sessionId of
        (effs, Inl _) \<Rightarrow> (effs, Inr ())
      | (effs, Inr u) \<Rightarrow> (effs, Inr u))"

text \<open>
  \<open>isSubagentSession\<close>: true when \<open>result.data?.parentID\<close> is truthy, that is present
  and not the empty string; a failed lookup is caught and counts as no parent.
\<close>

definition isSubagentSession :: "'h collaborators \<Rightarrow> string \<Rightarrow> bool" where
  "isSubagentSession env sessionID =
     (case session_get env sessionID of
        Inl _ \<Rightarrow> False
      | Inr None \<Rightarrow> False
      | Inr (Some parentID) \<Rightarrow> parentID \<noteq> [])"

text \<open>
  An event of the host: a \<open>session.status\<close> event carries the status type and the session
  id; no other event is looked at.
\<close>

datatype event = SessionStatus string string | OtherEvent string

text \<open>
  The state of the plugin is the table \<open>sessionIdleCount\<close>. The handler answers the
  table after the call, whether it dispatched \<open>updateSessionTitle\<close>, the run it
  dispatched (the call of \<open>updateSessionTitle\<close> with what it did and how it ended), what
  that run did to the outside world, and how the handler itself ended. The run is
  dispatched without being awaited and its rejection goes to a \<open>catch\<close> that only logs.
\<close>

type_synonym counters = "string \<rightharpoonup> nat"

text \<open>\<open>sessionIdleCount.get(sessionId) || 0\<close>.\<close>

definition idle_count :: "counters \<Rightarrow> string \<Rightarrow> nat" where
  "idle_count tbl sessionId = (case tbl sessionId of None \<Rightarrow> 0 | Some n \<Rightarrow> n)"

record handled =
  counts_after :: counters
  dispatched :: bool
  run_of :: "(effect list \<times> (error + unit)) option"
  effects_of :: "effect list"
  outcome :: "error + unit"

definition event_handler ::
  "'h collaborators \<Rightarrow> string \<Rightarrow> pluginConfig \<Rightarrow> counters \<Rightarrow> event \<Rightarrow> handled" where
  "event_handler env title_prompt config sessionIdleCount ev =
     (case ev of
        OtherEvent _ \<Rightarrow>
          \<lparr>counts_after = sessionIdleCount, dispatched = False, run_of = None,
           effects_of = [], outcome = Inr ()\<rparr>
      | SessionStatus status sessionId \<Rightarrow>
          if status \<noteq> ''idle'' then
            \<lparr>counts_after = sessionIdleCount, dispatched = False, run_of = None,
             effects_of = [], outcome = Inr ()\<rparr>
          else if isSubagentSession env sessionId then
            \<lparr>counts_after = sessionIdleCount, dispatched = False, run_of = None,
             effects_of = [], outcome = Inr ()\<rparr>
          else
            (let currentCount = idle_count sessionIdleCount sessionId + 1;
                 counts = sessionIdleCount(sessionId \<mapsto> currentCount)
             in if currentCount mod updateThreshold config \<noteq> 0 then
                  \<lparr>counts_after = counts, dispatched = False, run_of = None,
                   effects_of = [], outcome = Inr ()\<rparr>
                else
                  (let run = updateSessionTitle env title_prompt config sessionId
                   in \<lparr>counts_after = counts, dispatched = True, run_of = Some run,
                       effects_of = fst run, outcome = Inr ()\<rparr>)))"

text \<open>
  \<open>SmartTitlePlugin\<close> registers the handler unless the plugin is disabled.
\<close>

definition SmartTitlePlugin ::
  "'h collaborators \<Rightarrow> string \<Rightarrow> pluginConfig \<Rightarrow> (counters \<Rightarrow> event \<Rightarrow> handled) option" where
  "SmartTitlePlugin env title_prompt config =
     (if \<not> enabled config then None else Some (event_handler env title_prompt config))"

text \<open>
  \<open>onIdle\<close> is the handler on an idle notification for one session. \<open>idle_run\<close> delivers
  a list of idle notifications one after the other, each to the table the previous one
  left, and collects for each call whether it dispatched a run.
\<close>

definition onIdle ::
  "'h collaborators \<Rightarrow> string \<Rightarrow> pluginConfig \<Rightarrow> counters \<Rightarrow> string \<Rightarrow> handled" where
  "onIdle env title_prompt config sessionIdleCount sessionId =
     event_handler env title_prompt config sessionIdleCount (SessionStatus ''idle'' sessionId)"

fun idle_run ::
  "'h collaborators \<Rightarrow> string \<Rightarrow> pluginConfig \<Rightarrow> counters \<Rightarrow> string list
     \<Rightarrow> counters \<times> bool list" where
  "idle_run env title_prompt config tbl [] = (tbl, [])"
| "idle_run env title_prompt config tbl (s # ss) =
     (let h = onIdle env title_prompt config tbl s
      in (case idle_run env title_prompt config (counts_after h) ss of
            (tbl', ds) \<Rightarrow> (tbl', dispatched h # ds)))"

text \<open>
  The runs of such a sequence: for every call the run of \<open>updateSessionTitle\<close> it
  dispatched, if it dispatched one.
\<close>

fun idle_run_runs ::
  "'h collaborators \<Rightarrow> string \<Rightarrow> pluginConfig \<Rightarrow> counters \<Rightarrow> string list
     \<Rightarrow> (effect list \<times> (error + unit)) option list" where
  "idle_run_runs env title_prompt config tbl [] = []"
| "idle_run_runs env title_prompt config tbl (s # ss) =
     (let h = onIdle env title_prompt config tbl s
      in run_of h # idle_run_runs env title_prompt config (counts_after h) ss)"

section \<open>Notions used to state the properties\<close>









text \<open>
  The number of positions of a string at which a pattern starts.
\<close>

fun count_occ :: "string \<Rightarrow> string \<Rightarrow> nat" where
  "count_occ pat [] = 0"
| "count_occ pat (c # cs) = (if prefix pat (c # cs) then 1 else 0) + count_occ pat cs"

text \<open>
  What may follow a text without creating an occurrence of \<open>User: \<close> across the
  seam: nothing, or a character that is not one of the pattern's later characters.
\<close>

definition safe_tail :: "string \<Rightarrow> bool" where
  "safe_tail b \<longleftrightarrow> b = [] \<or> hd b \<notin> set ''ser: ''"

text \<open>1 for a line that starts with \<open>User: \<close>, 0 for any other line.\<close>

definition user_line :: "string \<Rightarrow> nat" where
  "user_line l = (if prefix ''User: '' l then 1 else 0)"

text \<open>A turn one of whose texts contains \<open>User: \<close>.\<close>

definition mentions_user :: "conversationTurn \<Rightarrow> bool" where
  "mentions_user t \<longleftrightarrow>
     count_occ ''User: '' (user_text t) \<noteq> 0 \<or>
     (case assistant t of
        None \<Rightarrow> False
      | Some a \<Rightarrow> count_occ ''User: '' (first_a a) \<noteq> 0 \<or> count_occ ''User: '' (last_a a) \<noteq> 0)"

text \<open>
  The sanitizer in the words of the specification. \<open>split_at pat s\<close> cuts \<open>s\<close> at the
  first occurrence of a marker into what is before and what is after it. Step 1 removes
  every block from a start marker through the next end marker; the flag says whether the
  white space directly behind the end marker goes with the block (the specification
  removes the block only). Step 2 takes the first line whose trimmed length is not zero,
  trimmed, or the placeholder. Step 3 cuts a line of more than 100 characters to 97 and
  appends the ellipsis.
\<close>

fun split_at :: "string \<Rightarrow> string \<Rightarrow> (string \<times> string) option" where
  "split_at pat [] = None"
| "split_at pat (c # cs) =
     (if prefix pat (c # cs) then Some ([], drop (length pat) (c # cs))
      else (case split_at pat cs of
              None \<Rightarrow> None
            | Some (before, after) \<Rightarrow> Some (c # before, after)))"

function strip_blocks :: "bool \<Rightarrow> string \<Rightarrow> string" where
  "strip_blocks with_space s =
     (case split_at ''<think>'' s of
        None \<Rightarrow> s
      | Some (before, after) \<Rightarrow>
          (case split_at ''</think>'' after of
             None \<Rightarrow> s
           | Some (body, rest) \<Rightarrow>
               before @
               strip_blocks with_space (if with_space then dropWhile is_space rest else rest)))"
  by pat_completeness auto
termination
proof (relation "measure (\<lambda>(w, s). length s)")
  have sa: "length a < length s" if "split_at pat s = Some (b, a)" "pat \<noteq> []" for pat s b a
    using that
    by (induction s arbitrary: b) (auto split: if_splits option.splits)
  fix with_space :: bool and s x2 before after x2a body rest
  assume "split_at ''<think>'' s = Some x2" "(before, after) = x2"
    "split_at ''</think>'' after = Some x2a" "(body, rest) = x2a"
  then have 1: "length after < length s" and 2: "length rest < length after"
    using sa [of "''<think>''" s before after] sa [of "''</think>''" after body rest] by auto
  have "length (dropWhile is_space rest) \<le> length rest"
    by (rule length_dropWhile_le)
  with 1 2 show "((with_space, if with_space then dropWhile is_space rest else rest),
                  with_space, s) \<in> measure (\<lambda>(w, s). length s)"
    by simp
qed simp

declare strip_blocks.simps [simp del]

text \<open>An end marker of the text is directly followed by white space.\<close>

fun space_after_end :: "string \<Rightarrow> bool" where
  "space_after_end [] = False"
| "space_after_end (c # cs) =
     ((prefix ''</think>'' (c # cs) \<and>
       (case drop 8 (c # cs) of [] \<Rightarrow> False | d # _ \<Rightarrow> is_space d))
      \<or> space_after_end cs)"

definition sanitize_spec :: "bool \<Rightarrow> string \<Rightarrow> string" where
  "sanitize_spec with_space rawText =
     (let remaining = strip_blocks with_space rawText;
          selected = (case filter (\<lambda>line. length (trim line) \<noteq> 0)
                             (split_on CHR ''\<newline>'' remaining) of
                        [] \<Rightarrow> ''Untitled''
                      | line # _ \<Rightarrow> trim line)
      in if length selected > 100 then take 97 selected @ ''...'' else selected)"

text \<open>
  A title is well formed: not empty, on one line, and without white space at either end.
\<close>

definition well_formed_title :: "string \<Rightarrow> bool" where
  "well_formed_title x \<longleftrightarrow>
     x \<noteq> [] \<and> CHR ''\<newline>'' \<notin> set x \<and> \<not> is_space (hd x) \<and> \<not> is_space (last x)"

text \<open>
  A stage of the pipeline fails: the messages cannot be fetched, there is no turn, the
  model selection fails, or the generation call fails.
\<close>

definition stage_failure ::
  "'h collaborators \<Rightarrow> string \<Rightarrow> pluginConfig \<Rightarrow> string \<Rightarrow> bool" where
  "stage_failure env title_prompt config sessionId =
     (case session_messages env sessionId of
        Inl _ \<Rightarrow> True
      | Inr messages \<Rightarrow>
          extractSmartContext messages = [] \<or>
          (case snd (selectModel (loadAuthProvider env) (getLanguageModel env)
                       (listProviders env) True (cmodel config)) of
             Inl _ \<Rightarrow> True
           | Inr sel \<Rightarrow>
               isl (generateText env (model sel)
                      (generation_prompt title_prompt
                         (formatContextForTitle (extractSmartContext messages) (maxTurns config)
                            (maxCharsPerMessage config))))))"

text \<open>The effects that set a session title.\<close>

fun is_update :: "effect \<Rightarrow> bool" where
  "is_update (SessionUpdate sid title) = True"
| "is_update (ShowToast title msg) = False"

section \<open>Concrete inputs\<close>

text \<open>
  A small world to run the program in: session \<open>s1\<close> has two user messages and one
  assistant reply, session \<open>child\<close> has a parent, only \<open>anthropic\<close> resolves a model, and
  the generated text carries a reasoning block.
\<close>

definition demo_messages :: "message list" where
  "demo_messages =
     [\<lparr>mrole = User, created = 1,
       parts = [\<lparr>ptype = ''text'', ptext = Some ''  fix the login bug '', synthetic = False\<rparr>]\<rparr>,
      \<lparr>mrole = Assistant, created = 2,
       parts = [\<lparr>ptype = ''text'', ptext = Some ''Looking at it'', synthetic = False\<rparr>]\<rparr>,
      \<lparr>mrole = User, created = 3,
       parts = [\<lparr>ptype = ''text'', ptext = Some ''thanks'', synthetic = False\<rparr>]\<rparr>]"

definition demo_registry :: registry where
  "demo_registry =
     [(''openai'', \<lparr>entry_source = Some ''env'', entry_info = Some (Some ''OpenAI'')\<rparr>),
      (''anthropic'', \<lparr>entry_source = Some ''auth'', entry_info = Some (Some ''Anthropic'')\<rparr>)]"

definition demo_env :: "nat collaborators" where
  "demo_env =
     \<lparr>session_messages =
        (\<lambda>sid. if sid = ''s1'' then Inr demo_messages
               else Inl (CollaboratorError ''no such session'')),
      session_get = (\<lambda>sid. if sid = ''child'' then Inr (Some ''s1'') else Inr None),
      session_update = (\<lambda>sid title. Inr ()),
      showToast = (\<lambda>title msg. Inr ()),
      loadAuthProvider = Inr (),
      getLanguageModel =
        (\<lambda>pid mid. if pid = ''anthropic'' then Inr 7
                   else Inl (CollaboratorError ''unavailable'')),
      listProviders = Inr demo_registry,
      generateText =
        (\<lambda>h prompt. Inr ''<think>reasoning</think>Fixing bug\<newline>Extra line'')\<rparr>"

text \<open>
  A user message, an assistant message that has no text part (a tool call only), and a
  second user message.
\<close>

definition unanswered_messages :: "message list" where
  "unanswered_messages =
     [\<lparr>mrole = User, created = 1,
       parts = [\<lparr>ptype = ''text'', ptext = Some ''first question'', synthetic = False\<rparr>]\<rparr>,
      \<lparr>mrole = Assistant, created = 2,
       parts = [\<lparr>ptype = ''tool'', ptext = None, synthetic = False\<rparr>]\<rparr>,
      \<lparr>mrole = User, created = 3,
       parts = [\<lparr>ptype = ''text'', ptext = Some ''second question'', synthetic = False\<rparr>]\<rparr>]"

text \<open>A turn whose user text has a second line that starts with \<open>User: \<close>.\<close>

definition quoting_turn :: conversationTurn where
  "quoting_turn = \<lparr>user_text = ''a\<newline>User: b'', user_time = 0, assistant = None\<rparr>"

definition plain_turns :: "conversationTurn list" where
  "plain_turns =
     [\<lparr>user_text = ''one'', user_time = 1, assistant = None\<rparr>,
      \<lparr>user_text = ''a rather long question'', user_time = 2,
       assistant = Some \<lparr>first_a = ''yes'', last_a = ''no'', time_a = 3\<rparr>\<rparr>,
      \<lparr>user_text = ''three'', user_time = 4,
       assistant = Some \<lparr>first_a = ''ok'', last_a = ''ok'', time_a = 5\<rparr>\<rparr>]"

text \<open>
  A resolver that returns a model for every request; the empty registry; a registry in
  which only \<open>nvidia\<close> is authenticated; a registry with an entry that has no \<open>info\<close>
  object; a registry call that is rejected; and an authentication provider that cannot
  be loaded.
\<close>

definition resolve_all :: "string \<Rightarrow> string \<Rightarrow> error + nat" where
  "resolve_all pid mid = Inr 0"


definition nvidia_only :: registry where
  "nvidia_only =
     [(''nvidia'', \<lparr>entry_source = Some ''auth'', entry_info = Some (Some ''NVIDIA'')\<rparr>)]"




definition demo_config :: pluginConfig where
  "demo_config =
     \<lparr>enabled = True, debug = False, cmodel = Some ''openai/gpt-5-mini'',
      updateThreshold = 3, maxTurns = 2, maxCharsPerMessage = 10\<rparr>"

section \<open>ContextExtractor: a turn without assistant text\<close>

text \<open>
  C2, evaluated. The history has two user messages, the first answered only by an
  assistant message without text. \<open>extractSmartContext\<close> returns one turn, for the
  second user message: the first turn is closed by the next user message without having
  collected assistant text, and the loop pushes a closed turn only under
  \<open>assistantMessagesInTurn.length > 0\<close>.
\<close>

theorem extract_drops_unanswered_turn:
  "length (filter (\<lambda>m. mrole m = User) unanswered_messages) = 2
   \<and> extractSmartContext unanswered_messages =
       [\<lparr>user_text = ''second question'', user_time = 3, assistant = None\<rparr>]"
  by (simp add: extractSmartContext_def unanswered_messages_def extractTextOnly_def trim_def
        is_space_def)

section \<open>ContextFormatter: user lines\<close>

lemma prefix_append_cases:
  assumes "prefix p (x @ b)" "x \<noteq> []" "\<not> prefix p x"
  shows "b \<noteq> [] \<and> hd b \<in> set (tl p)"
proof -
  from assms(1,3) obtain us where us: "p = x @ us" "prefix us b"
    unfolding prefix_append by blast
  with assms(3) have ne: "us \<noteq> []" by auto
  with us(2) have "b \<noteq> []" by auto
  moreover from us(2) ne have "hd b = hd us" by (cases us; cases b) auto
  moreover from us(1) ne assms(2) have "hd us \<in> set (tl p)" by (cases x; cases us) auto
  ultimately show ?thesis by simp
qed

lemma count_occ_append_clean:
  assumes "count_occ ''User: '' a = 0" "safe_tail b"
  shows "count_occ ''User: '' (a @ b) = count_occ ''User: '' b"
  using assms(1)
proof (induction a)
  case Nil
  show ?case by simp
next
  case (Cons c cs)
  from Cons.prems have np: "\<not> prefix ''User: '' (c # cs)" and z: "count_occ ''User: '' cs = 0"
    by (auto split: if_splits)
  have "\<not> prefix ''User: '' ((c # cs) @ b)"
  proof
    assume "prefix ''User: '' ((c # cs) @ b)"
    from prefix_append_cases [OF this _ np]
    have "b \<noteq> [] \<and> hd b \<in> set (tl ''User: '')" by simp
    with assms(2) show False by (simp add: safe_tail_def)
  qed
  then have "count_occ ''User: '' ((c # cs) @ b) = count_occ ''User: '' (cs @ b)"
    by (simp only: append_Cons count_occ.simps if_False add_0)
  with Cons.IH [OF z] show ?case by simp
qed

lemma count_occ_take: "count_occ pat a = 0 \<Longrightarrow> count_occ pat (take n a) = 0"
proof (induction a arbitrary: n)
  case Nil
  show ?case by simp
next
  case (Cons c cs)
  from Cons.prems have np: "\<not> prefix pat (c # cs)" and z: "count_occ pat cs = 0"
    by (auto split: if_splits)
  show ?case
  proof (cases n)
    case 0
    then show ?thesis by simp
  next
    case (Suc k)
    have "prefix (take n (c # cs)) (c # cs)" by (rule take_is_prefix)
    with np have "\<not> prefix pat (take n (c # cs))"
      using prefix_order.trans by blast
    with Cons.IH [OF z, of k] Suc show ?thesis by simp
  qed
qed

lemma count_occ_user: "count_occ ''User: '' (''User: '' @ r) = Suc (count_occ ''User: '' r)"
  by simp

lemma count_occ_skip:
  "count_occ ''User: '' (''Assistant: '' @ r) = count_occ ''User: '' r"
  "count_occ ''User: '' (''Assistant (initial): '' @ r) = count_occ ''User: '' r"
  "count_occ ''User: '' (''Assistant (final): '' @ r) = count_occ ''User: '' r"
  "count_occ ''User: '' (''...'' @ r) = count_occ ''User: '' r"
  "count_occ ''User: '' (''\<newline>'' @ r) = count_occ ''User: '' r"
  by simp_all

lemma safe_tail_simps:
  "safe_tail []" "safe_tail (''...'' @ r)" "safe_tail (''\<newline>'' @ r)"
  by (simp_all add: safe_tail_def)

lemma count_occ_truncate:
  assumes "count_occ ''User: '' t = 0" "safe_tail b"
  shows "count_occ ''User: '' (truncate_str t n @ b) = count_occ ''User: '' b"
proof (cases "int (length t) \<le> n")
  case True
  with assms show ?thesis by (simp add: truncate_str_def count_occ_append_clean)
next
  case False
  have "count_occ ''User: '' (take (nat n) t @ (''...'' @ b)) = count_occ ''User: '' (''...'' @ b)"
    by (rule count_occ_append_clean) (rule count_occ_take [OF assms(1)], rule safe_tail_simps)
  also have "\<dots> = count_occ ''User: '' b" by (rule count_occ_skip)
  finally show ?thesis using False by (simp add: truncate_str_def)
qed

lemma count_occ_join:
  assumes "\<forall>l \<in> set ls. \<forall>b. safe_tail b \<longrightarrow>
             count_occ ''User: '' (l @ b) = user_line l + count_occ ''User: '' b"
  shows "count_occ ''User: '' (join ''\<newline>'' ls) = sum_list (map user_line ls)"
  using assms
proof (induction "''\<newline>''" ls rule: join.induct)
  case 1
  show ?case by simp
next
  case (2 x)
  then have "count_occ ''User: '' (x @ []) = user_line x + count_occ ''User: '' []"
    using safe_tail_simps(1) by (metis list.set_intros(1))
  then show ?case by simp
next
  case (3 x y ys)
  let ?r = "join ''\<newline>'' (y # ys)"
  from "3.prems" have "count_occ ''User: '' (x @ (''\<newline>'' @ ?r)) =
        user_line x + count_occ ''User: '' (''\<newline>'' @ ?r)"
    using safe_tail_simps(3) by (metis list.set_intros(1))
  also have "count_occ ''User: '' (''\<newline>'' @ ?r) = count_occ ''User: '' ?r"
    by (rule count_occ_skip)
  also have "count_occ ''User: '' ?r = sum_list (map user_line (y # ys))"
    by (rule "3.hyps") (use "3.prems" in simp)
  finally show ?case by simp
qed

lemma turn_lines_count:
  assumes "\<not> mentions_user t" "l \<in> set (turn_lines mc t)" "safe_tail b"
  shows "count_occ ''User: '' (l @ b) = user_line l + count_occ ''User: '' b"
proof -
  from assms(1) have u: "count_occ ''User: '' (user_text t) = 0"
    by (simp add: mentions_user_def)
  have tu: "count_occ ''User: '' (''User: '' @ truncate_str x mc @ b) =
              Suc (count_occ ''User: '' b)" if "count_occ ''User: '' x = 0" for x
    using count_occ_truncate [OF that assms(3)] by (simp only: count_occ_user)
  show ?thesis
  proof (cases "assistant t")
    case None
    with assms(2) have "l = ''User: '' @ truncate_str (user_text t) mc \<or> l = []"
      by (auto simp: turn_lines_def)
    then show ?thesis
    proof
      assume "l = ''User: '' @ truncate_str (user_text t) mc"
      then show ?thesis using tu [OF u] by (simp add: user_line_def)
    next
      assume "l = []"
      then show ?thesis by (simp add: user_line_def)
    qed
  next
    case (Some a)
    with assms(1) have f: "count_occ ''User: '' (first_a a) = 0"
      and la: "count_occ ''User: '' (last_a a) = 0"
      by (simp_all add: mentions_user_def)
    from Some assms(2) consider
        "l = ''User: '' @ truncate_str (user_text t) mc" | "l = []"
      | "l = ''Assistant: '' @ truncate_str (first_a a) mc"
      | "l = ''Assistant (initial): '' @ truncate_str (first_a a) mc"
      | "l = ''Assistant (final): '' @ truncate_str (last_a a) mc"
      by (auto simp: turn_lines_def split: if_splits)
    then show ?thesis
    proof cases
      case 1
      then show ?thesis using tu [OF u] by (simp add: user_line_def)
    next
      case 2
      then show ?thesis by (simp add: user_line_def)
    next
      case 3
      have "count_occ ''User: '' (''Assistant: '' @ truncate_str (first_a a) mc @ b) =
            count_occ ''User: '' b"
        by (simp only: count_occ_skip count_occ_truncate [OF f assms(3)])
      with 3 show ?thesis by (simp add: user_line_def)
    next
      case 4
      have "count_occ ''User: '' (''Assistant (initial): '' @ truncate_str (first_a a) mc @ b) =
            count_occ ''User: '' b"
        by (simp only: count_occ_skip count_occ_truncate [OF f assms(3)])
      with 4 show ?thesis by (simp add: user_line_def)
    next
      case 5
      have "count_occ ''User: '' (''Assistant (final): '' @ truncate_str (last_a a) mc @ b) =
            count_occ ''User: '' b"
        by (simp only: count_occ_skip count_occ_truncate [OF la assms(3)])
      with 5 show ?thesis by (simp add: user_line_def)
    qed
  qed
qed

lemma user_line_simps:
  "user_line (''User: '' @ r) = 1"
  "user_line [] = 0"
  "user_line (''Assistant: '' @ r) = 0"
  "user_line (''Assistant (initial): '' @ r) = 0"
  "user_line (''Assistant (final): '' @ r) = 0"
  by (simp_all add: user_line_def)

lemma turn_lines_user: "sum_list (map user_line (turn_lines mc t)) = 1"
proof (cases "assistant t")
  case None
  then have "turn_lines mc t = [''User: '' @ truncate_str (user_text t) mc, []]"
    by (simp add: turn_lines_def)
  then show ?thesis by (simp only: list.map sum_list.Cons sum_list.Nil user_line_simps)
next
  case (Some a)
  show ?thesis
  proof (cases "first_a a = last_a a")
    case True
    with Some have "turn_lines mc t =
      [''User: '' @ truncate_str (user_text t) mc, [],
       ''Assistant: '' @ truncate_str (first_a a) mc, []]"
      by (simp add: turn_lines_def)
    then show ?thesis by (simp only: list.map sum_list.Cons sum_list.Nil user_line_simps)
  next
    case False
    with Some have "turn_lines mc t =
      [''User: '' @ truncate_str (user_text t) mc, [],
       ''Assistant (initial): '' @ truncate_str (first_a a) mc,
       ''Assistant (final): '' @ truncate_str (last_a a) mc, []]"
      by (simp add: turn_lines_def)
    then show ?thesis by (simp only: list.map sum_list.Cons sum_list.Nil user_line_simps)
  qed
qed

lemma user_lines_concat:
  "sum_list (map user_line (concat (map (turn_lines mc) ts))) = length ts"
  by (induction ts) (simp_all add: turn_lines_user)

lemma slice_last_pos:
  "0 < n \<Longrightarrow> slice_last n xs = drop (length xs - nat n) xs"
  by (auto simp: slice_last_def Let_def max_def intro: arg_cong [where f = "\<lambda>k. drop k xs"])

lemma length_slice_last: "0 < n \<Longrightarrow> length (slice_last n xs) = min (length xs) (nat n)"
  by (simp add: slice_last_pos)

lemma set_slice_last: "set (slice_last n xs) \<subseteq> set xs"
  by (auto simp: slice_last_def Let_def dest: in_set_dropD)

lemma format_count:
  assumes "\<forall>t \<in> set turns. \<not> mentions_user t"
  shows "count_occ ''User: '' (formatContextForTitle turns maxT maxChars) =
           length (slice_last maxT turns)"
proof -
  let ?ts = "slice_last maxT turns"
  have "\<forall>l \<in> set (concat (map (turn_lines maxChars) ?ts)). \<forall>b. safe_tail b \<longrightarrow>
          count_occ ''User: '' (l @ b) = user_line l + count_occ ''User: '' b"
  proof (intro ballI allI impI)
    fix l b assume l: "l \<in> set (concat (map (turn_lines maxChars) ?ts))" and b: "safe_tail b"
    then obtain t where t: "t \<in> set ?ts" "l \<in> set (turn_lines maxChars t)" by auto
    with assms set_slice_last [of maxT turns] have "\<not> mentions_user t" by blast
    from turn_lines_count [OF this t(2) b]
    show "count_occ ''User: '' (l @ b) = user_line l + count_occ ''User: '' b" .
  qed
  from count_occ_join [OF this] show ?thesis
    by (simp add: formatContextForTitle_def user_lines_concat)
qed

text \<open>
  C6 (amended). For every positive \<open>maxTurns\<close> and every list of turns none of whose
  texts contains \<open>User: \<close>, the output of \<open>formatContextForTitle\<close> contains exactly
  \<open>min (number of turns) maxTurns\<close> occurrences of \<open>User: \<close>, hence at most \<open>maxTurns\<close>:
  the formatter selects the chronological tail of at most \<open>maxTurns\<close> turns and emits one
  line that starts with \<open>User: \<close> for each, whatever the texts are. A text longer than \<open>maxCharsPerMessage\<close> is cut to that length and
  gets the ellipsis; a shorter one is unchanged.
\<close>

theorem format_user_lines:
  assumes "0 < maxT" and "\<forall>t \<in> set turns. \<not> mentions_user t"
  shows "count_occ ''User: '' (formatContextForTitle turns maxT maxChars) =
           min (length turns) (nat maxT)
       \<and> count_occ ''User: '' (formatContextForTitle turns maxT maxChars) \<le> nat maxT
       \<and> sum_list (map user_line
             (concat (map (turn_lines maxChars) (slice_last maxT turns)))) =
           min (length turns) (nat maxT)
       \<and> slice_last maxT turns = drop (length turns - nat maxT) turns
       \<and> (int (length text) \<le> maxChars \<longrightarrow> truncate_str text maxChars = text)
       \<and> (0 \<le> maxChars \<and> maxChars < int (length text) \<longrightarrow>
            truncate_str text maxChars = take (nat maxChars) text @ ''...''
            \<and> length (truncate_str text maxChars) = nat maxChars + 3)"
proof -
  have a: "count_occ ''User: '' (formatContextForTitle turns maxT maxChars) =
             min (length turns) (nat maxT)"
    by (simp only: format_count [OF assms(2)] length_slice_last [OF assms(1)])
  have b: "slice_last maxT turns = drop (length turns - nat maxT) turns"
    by (rule slice_last_pos [OF assms(1)])
  have c: "int (length text) \<le> maxChars \<longrightarrow> truncate_str text maxChars = text"
    by (simp add: truncate_str_def)
  have d: "0 \<le> maxChars \<and> maxChars < int (length text) \<longrightarrow>
            truncate_str text maxChars = take (nat maxChars) text @ ''...''
            \<and> length (truncate_str text maxChars) = nat maxChars + 3"
    by (auto simp: truncate_str_def)
  have a': "count_occ ''User: '' (formatContextForTitle turns maxT maxChars) \<le> nat maxT"
    by (simp add: a)
  have u: "sum_list (map user_line
             (concat (map (turn_lines maxChars) (slice_last maxT turns)))) =
           min (length turns) (nat maxT)"
    by (simp only: user_lines_concat length_slice_last [OF assms(1)])
  show ?thesis
    by (intro conjI) (rule a a' u b c d)+
qed

theorem format_user_lines_witness:
  "(0::int) < 2 \<and> list_all (\<lambda>t. \<not> mentions_user t) plain_turns
   \<and> count_occ ''User: '' (formatContextForTitle plain_turns 2 5) = 2
   \<and> truncate_str ''a rather long question'' 5 = ''a rat...''"
proof -
  have h: "\<forall>t \<in> set plain_turns. \<not> mentions_user t"
    by (simp add: plain_turns_def mentions_user_def)
  from format_user_lines [OF _ h, of 2 5 "''a rather long question''"] h
  show ?thesis by (simp add: plain_turns_def list_all_iff)
qed

text \<open>
  C6 as stated fails: the texts are copied into the output as they are, so a user text
  with a line that starts with \<open>User: \<close> adds an occurrence: one turn, \<open>maxTurns = 1\<close>,
  two occurrences.
\<close>

theorem format_user_lines_counterexample:
  "\<not> count_occ ''User: '' (formatContextForTitle [quoting_turn] 1 100) \<le> nat 1"
  by (simp add: formatContextForTitle_def quoting_turn_def slice_last_def turn_lines_def
        truncate_str_def)

section \<open>ModelSelector: parsing, fallback order, exhaustion\<close>























text \<open>
  C1, evaluated. The configured string \<open>nvidia/meta/llama-3.3-70b-instruct\<close> has three
  parts. With \<open>nvidia\<close> authenticated and every resolution succeeding, \<open>selectModel\<close>
  attempts no resolution at all and ends in the no-usable-model error: the guard
  \<open>parts.length !== 2\<close> sends the string to the fallback models, and \<open>nvidia\<close> is not on
  the priority list. A two-part string for the same provider is resolved and returned.
\<close>

theorem selectModel_three_parts:
  "selectModel (Inr ()) resolve_all (Inr nvidia_only) True
     (Some ''nvidia/meta/llama-3.3-70b-instruct'') = ([], Inl NoUsableModel)
   \<and> resolve_all ''nvidia'' ''meta/llama-3.3-70b-instruct'' = Inr 0
   \<and> selectModel (Inr ()) resolve_all (Inr nvidia_only) True (Some ''nvidia/llama-3.3'') =
       ([(''nvidia'', ''llama-3.3'', True)],
        Inr \<lparr>model = 0, info = \<lparr>providerID = ''nvidia'', modelID = ''llama-3.3''\<rparr>,
             source = Config,
             reason = Some ''Using model specified in smart-title.jsonc config'',
             failedModel = None\<rparr>)"
  by (simp add: selectModel_def fallback_phase_def resolve_all_def nvidia_only_def
        PROVIDER_PRIORITY_def)






section \<open>TitleSanitizer: the steps and the postcondition\<close>

lemma find_end_split_at: "find_end s = map_option snd (split_at ''</think>'' s)"
  by (induction s) (auto simp: eval_nat_numeral split: option.splits)

lemma find_end_None_drop: "find_end s = None \<Longrightarrow> find_end (drop k s) = None"
proof (induction k arbitrary: s)
  case 0
  then show ?case by simp
next
  case (Suc k)
  then show ?case by (cases s) (auto split: if_splits)
qed

lemma remove_think_no_end: "find_end (drop 6 t) = None \<Longrightarrow> remove_think t = t"
proof (induction t)
  case Nil
  show ?case by simp
next
  case (Cons c cs)
  have "drop 6 cs = drop 1 (drop 6 (c # cs))" by (simp add: drop_Suc)
  with Cons.prems have e: "find_end (drop 6 cs) = None"
    using find_end_None_drop by metis
  with Cons.IH have "remove_think cs = cs" by simp
  moreover have "find_end (drop 7 (c # cs)) = None" using e by simp
  ultimately show ?case by simp
qed

lemma strip_no_start: "split_at ''<think>'' s = None \<Longrightarrow> strip_blocks w s = s"
  by (subst strip_blocks.simps) simp

lemma strip_no_end:
  "split_at ''<think>'' s = Some (b, a) \<Longrightarrow> split_at ''</think>'' a = None \<Longrightarrow>
   strip_blocks w s = s"
  by (subst strip_blocks.simps) simp

lemma strip_block:
  "split_at ''<think>'' s = Some (b, a) \<Longrightarrow> split_at ''</think>'' a = Some (body, rest) \<Longrightarrow>
   strip_blocks w s = b @ strip_blocks w (if w then dropWhile is_space rest else rest)"
  by (subst strip_blocks.simps) simp

lemma remove_think_strip: "remove_think s = strip_blocks True s"
proof (induction s rule: remove_think.induct)
  case 1
  show ?case by (simp add: strip_no_start)
next
  case (2 c cs)
  show ?case
  proof (cases "prefix ''<think>'' (c # cs)")
    case True
    then have st: "split_at ''<think>'' (c # cs) = Some ([], drop 7 (c # cs))"
      by (simp add: eval_nat_numeral)
    show ?thesis
    proof (cases "find_end (drop 7 (c # cs))")
      case None
      then have "split_at ''</think>'' (drop 7 (c # cs)) = None"
        by (simp add: find_end_split_at)
      with st have r: "strip_blocks True (c # cs) = c # cs" by (rule strip_no_end)
      from None have "find_end (drop 6 cs) = None" by simp
      then have "remove_think cs = cs" by (rule remove_think_no_end)
      with True None r show ?thesis by simp
    next
      case (Some rest)
      then obtain body where "split_at ''</think>'' (drop 7 (c # cs)) = Some (body, rest)"
        by (auto simp: find_end_split_at)
      from strip_block [OF st this, of True]
      have "strip_blocks True (c # cs) = strip_blocks True (dropWhile is_space rest)" by simp
      with "2.IH"(2) [OF True Some] True Some show ?thesis by simp
    qed
  next
    case False
    with "2.IH"(3) have ih: "remove_think cs = strip_blocks True cs" by simp
    from False have rt: "remove_think (c # cs) = c # strip_blocks True cs"
      by (simp only: remove_think.simps(2) if_False ih)
    show ?thesis
    proof (cases "split_at ''<think>'' cs")
      case None
      with False have "split_at ''<think>'' (c # cs) = None" by simp
      then have "strip_blocks True (c # cs) = c # cs" by (rule strip_no_start)
      moreover from None have "strip_blocks True cs = cs" by (rule strip_no_start)
      ultimately show ?thesis by (simp only: rt)
    next
      case (Some ba)
      obtain b a where ba: "ba = (b, a)" by (cases ba)
      with Some False have st: "split_at ''<think>'' (c # cs) = Some (c # b, a)" by simp
      from Some ba have st0: "split_at ''<think>'' cs = Some (b, a)" by simp
      show ?thesis
      proof (cases "split_at ''</think>'' a")
        case None
        from strip_no_end [OF st None] strip_no_end [OF st0 None]
        show ?thesis by (simp only: rt)
      next
        case (Some br)
        obtain body rest where "br = (body, rest)" by (cases br)
        with Some have e: "split_at ''</think>'' a = Some (body, rest)" by simp
        from strip_block [OF st e, of True] strip_block [OF st0 e, of True]
        show ?thesis by (simp only: rt append_Cons)
      qed
    qed
  qed
qed

lemma find_filter_trim:
  "(case find (\<lambda>line. length line > 0) (map trim ls) of Some line \<Rightarrow> line | None \<Rightarrow> d) =
   (case filter (\<lambda>line. length (trim line) \<noteq> 0) ls of [] \<Rightarrow> d | line # _ \<Rightarrow> trim line)"
  by (induction ls) auto

lemma split_at_append:
  "split_at pat s = Some (b, a) \<Longrightarrow> s = b @ pat @ a"
proof (induction s arbitrary: b)
  case Nil
  then show ?case by simp
next
  case (Cons c cs)
  show ?case
  proof (cases "prefix pat (c # cs)")
    case True
    with Cons.prems have "b = []" "a = drop (length pat) (c # cs)" by simp_all
    moreover from True have "c # cs = pat @ drop (length pat) (c # cs)"
      by (metis append_eq_conv_conj prefix_def)
    ultimately show ?thesis by simp
  next
    case False
    with Cons.prems obtain b' where "split_at pat cs = Some (b', a)" "b = c # b'"
      by (auto split: option.splits)
    with Cons.IH show ?thesis by simp
  qed
qed

lemma space_after_end_suffix: "space_after_end y \<Longrightarrow> space_after_end (x @ y)"
  by (induction x) simp_all

lemma space_after_end_here:
  "\<not> space_after_end (''</think>'' @ rest) \<Longrightarrow> dropWhile is_space rest = rest"
  by (cases rest) simp_all

lemma strip_blocks_no_space:
  "\<not> space_after_end s \<Longrightarrow> strip_blocks True s = strip_blocks False s"
proof (induction s rule: length_induct)
  case (1 s)
  show ?case
  proof (cases "split_at ''<think>'' s")
    case None
    then show ?thesis by (simp add: strip_blocks.simps [of _ s])
  next
    case (Some ba)
    obtain b a where ba: "ba = (b, a)" by (cases ba)
    with Some have st: "split_at ''<think>'' s = Some (b, a)" by simp
    show ?thesis
    proof (cases "split_at ''</think>'' a")
      case None
      with st show ?thesis by (simp add: strip_blocks.simps [of _ s])
    next
      case (Some br)
      obtain body rest where "br = (body, rest)" by (cases br)
      with Some have e: "split_at ''</think>'' a = Some (body, rest)" by simp
      from split_at_append [OF st] split_at_append [OF e]
      have s: "s = (b @ ''<think>'' @ body) @ ''</think>'' @ rest" by simp
      with "1.prems" have n: "\<not> space_after_end (''</think>'' @ rest)"
        using space_after_end_suffix by metis
      then have d: "dropWhile is_space rest = rest" by (rule space_after_end_here)
      from n have "\<not> space_after_end rest"
        using space_after_end_suffix [of rest "''</think>''"] by blast
      moreover have "length rest < length s" by (subst s) simp
      ultimately have ih: "strip_blocks True rest = strip_blocks False rest"
        using "1.IH" by blast
      from st e d ih show ?thesis
        by (simp add: strip_blocks.simps [of _ s])
    qed
  qed
qed

lemma sanitize_spec_no_space:
  assumes "\<not> space_after_end raw"
  shows "sanitize_spec True raw = sanitize_spec False raw"
  unfolding sanitize_spec_def strip_blocks_no_space [OF assms] by (rule refl)

text \<open>
  C7 (amended). For every raw input \<open>cleanTitle\<close> removes every block from a start
  marker through the next end marker together with the white space directly behind the
  end marker, then returns the first line of the remainder whose trimmed length is not
  zero, trimmed, or \<open>Untitled\<close> if there is none, cut to 97 characters plus the ellipsis
  when it has more than 100. On an input in which no end marker is directly followed by
  white space that is the same as removing the blocks alone. The example of the
  specification gives \<open>Fixing bug\<close>.
\<close>

theorem cleanTitle_refines:
  "cleanTitle raw = sanitize_spec True raw
   \<and> (\<not> space_after_end raw \<longrightarrow> cleanTitle raw = sanitize_spec False raw)
   \<and> cleanTitle ''<think>reasoning</think>Fixing bug\<newline>Extra line'' = ''Fixing bug''"
proof -
  have a: "cleanTitle raw = sanitize_spec True raw"
    by (simp only: cleanTitle_def sanitize_spec_def Let_def remove_think_strip find_filter_trim)
  have b: "\<not> space_after_end raw \<longrightarrow> cleanTitle raw = sanitize_spec False raw"
  proof
    assume "\<not> space_after_end raw"
    then have "sanitize_spec True raw = sanitize_spec False raw"
      by (rule sanitize_spec_no_space)
    with a show "cleanTitle raw = sanitize_spec False raw" by (rule trans)
  qed
  have c: "cleanTitle ''<think>reasoning</think>Fixing bug\<newline>Extra line'' = ''Fixing bug''"
    by (simp add: cleanTitle_def trim_def is_space_def)
  show ?thesis
    by (intro conjI) (rule a b c)+
qed

theorem cleanTitle_refines_witness:
  "cleanTitle ''  <think>a\<newline>b</think> \<newline> Title here  \<newline>more'' = ''Title here''
   \<and> sanitize_spec True ''  <think>a\<newline>b</think> \<newline> Title here  \<newline>more'' =
       ''Title here''
   \<and> \<not> space_after_end ''<think>reasoning</think>Fixing bug\<newline>Extra line''
   \<and> sanitize_spec False ''<think>reasoning</think>Fixing bug\<newline>Extra line'' =
       ''Fixing bug''"
proof -
  have e: "cleanTitle ''  <think>a\<newline>b</think> \<newline> Title here  \<newline>more'' = ''Title here''"
    by (simp add: cleanTitle_def trim_def is_space_def)
  have n: "\<not> space_after_end ''<think>reasoning</think>Fixing bug\<newline>Extra line''"
    by (simp add: is_space_def)
  note t1 = cleanTitle_refines [of "''  <think>a\<newline>b</think> \<newline> Title here  \<newline>more''"]
  note t2 = cleanTitle_refines [of "''<think>reasoning</think>Fixing bug\<newline>Extra line''"]
  from t1 e
  have s1: "sanitize_spec True ''  <think>a\<newline>b</think> \<newline> Title here  \<newline>more'' =
              ''Title here''"
    by metis
  from t2 n
  have s2: "sanitize_spec False ''<think>reasoning</think>Fixing bug\<newline>Extra line'' =
              ''Fixing bug''"
    by metis
  show ?thesis
    by (intro conjI) (rule e s1 n s2)+
qed

text \<open>
  C7 as stated fails: the white space behind a removed block goes with it, so a line
  break directly behind a block does not end the line; the specification's steps, which
  remove the block only, select the text before the block.
\<close>

theorem cleanTitle_space_counterexample:
  "cleanTitle ''A<think>x</think>\<newline>B'' = ''AB''
   \<and> sanitize_spec False ''A<think>x</think>\<newline>B'' = ''A''"
  by (simp add: cleanTitle_def sanitize_spec_def strip_blocks.simps trim_def is_space_def)

lemma trim_hd_last:
  assumes "trim s \<noteq> []"
  shows "\<not> is_space (hd (trim s))" and "\<not> is_space (last (trim s))"
proof -
  let ?t = "dropWhile is_space s"
  let ?u = "dropWhile is_space (rev ?t)"
  from assms have u: "?u \<noteq> []" by (simp add: trim_def)
  then have t: "?t \<noteq> []" by (metis dropWhile.simps(1) rev.simps(1))
  have "last (trim s) = hd ?u" using u by (simp add: trim_def last_rev)
  moreover have "\<not> is_space (hd ?u)" using u by (rule hd_dropWhile)
  ultimately show "\<not> is_space (last (trim s))" by simp
  have "hd (trim s) = last ?u" using u by (simp add: trim_def hd_rev)
  also have "\<dots> = last (rev ?t)"
    using u by (metis last_appendR takeWhile_dropWhile_id)
  also have "\<dots> = hd ?t" using t by (simp add: last_rev)
  finally show "\<not> is_space (hd (trim s))" using hd_dropWhile [OF t] by simp
qed

lemma trim_fixed:
  assumes "s \<noteq> []" "\<not> is_space (hd s)" "\<not> is_space (last s)"
  shows "trim s = s"
proof -
  have 1: "dropWhile is_space s = s" using assms by (cases s) auto
  have 2: "dropWhile is_space (rev s) = rev s"
    using assms by (simp add: dropWhile_eq_self_iff hd_rev)
  show ?thesis by (simp add: trim_def 1 2)
qed

lemma set_trim: "set (trim s) \<subseteq> set s"
proof -
  have "set (trim s) \<subseteq> set (rev (dropWhile is_space s))"
    unfolding trim_def set_rev using set_dropWhileD by fastforce
  also have "\<dots> \<subseteq> set s" using set_dropWhileD by fastforce
  finally show ?thesis .
qed

lemma split_on_sep_free: "l \<in> set (split_on c s) \<Longrightarrow> c \<notin> set l"
proof (induction s arbitrary: l)
  case Nil
  then show ?case by simp
next
  case (Cons a s)
  then show ?case
    by (cases "split_on c s") (auto split: if_splits)
qed

lemma selected_well_formed:
  "well_formed_title (case find (\<lambda>line. length line > 0) (map trim (split_on CHR ''\<newline>'' t)) of
           Some line \<Rightarrow> line
         | None \<Rightarrow> ''Untitled'')"
proof (cases "find (\<lambda>line. length line > 0) (map trim (split_on CHR ''\<newline>'' t))")
  case None
  then show ?thesis by (simp add: well_formed_title_def is_space_def)
next
  case (Some l)
  let ?ls = "map trim (split_on CHR ''\<newline>'' t)"
  from Some obtain i where "i < length ?ls" "l = ?ls ! i" "length l > 0"
    unfolding find_Some_iff by blast
  then have "l \<in> set ?ls" "l \<noteq> []" using nth_mem [of i ?ls] by auto
  then obtain l0 where l0: "l0 \<in> set (split_on CHR ''\<newline>'' t)" "l = trim l0" "l \<noteq> []"
    by auto
  from l0 have "CHR ''\<newline>'' \<notin> set l"
    using split_on_sep_free [of l0] set_trim [of l0] by auto
  with l0 trim_hd_last [of l0] Some show ?thesis by (simp add: well_formed_title_def)
qed

lemma clip_well_formed:
  assumes "well_formed_title x"
  shows "well_formed_title (if length x > 100 then take 97 x @ ''...'' else x)"
proof (cases "length x > 100")
  case False
  with assms show ?thesis by simp
next
  case True
  then have "take 97 x \<noteq> []" by auto
  moreover have "hd (take 97 x) = hd x" using True by (cases x) auto
  moreover have "set (take 97 x) \<subseteq> set x" by (rule set_take_subset)
  ultimately show ?thesis using assms True
    by (auto simp: well_formed_title_def is_space_def)
qed

lemma clip_length: "length (if length x > 100 then take 97 x @ ''...'' else x) \<le> 100"
  by simp

lemma cleanTitle_well_formed: "well_formed_title (cleanTitle raw)"
  unfolding cleanTitle_def Let_def by (rule clip_well_formed) (rule selected_well_formed)

lemma cleanTitle_nonempty: "cleanTitle raw \<noteq> []"
  using cleanTitle_well_formed [of raw] by (simp add: well_formed_title_def)

lemma cleanTitle_length: "length (cleanTitle raw) \<le> 100"
  unfolding cleanTitle_def Let_def by (rule clip_length)

text \<open>
  C9. For every input the result of \<open>cleanTitle\<close> is not empty, has at most 100
  characters, contains no line feed, and is its own trimmed form.
\<close>

theorem cleanTitle_postcondition:
  "cleanTitle raw \<noteq> []
   \<and> length (cleanTitle raw) \<le> 100
   \<and> CHR ''\<newline>'' \<notin> set (cleanTitle raw)
   \<and> trim (cleanTitle raw) = cleanTitle raw"
proof -
  have g: "well_formed_title (cleanTitle raw)" by (rule cleanTitle_well_formed)
  then have "trim (cleanTitle raw) = cleanTitle raw"
    by (intro trim_fixed) (simp_all add: well_formed_title_def)
  with g cleanTitle_length [of raw] show ?thesis by (simp add: well_formed_title_def)
qed

theorem cleanTitle_postcondition_witness:
  "cleanTitle ''<think>only reasoning</think>  \<newline> '' = ''Untitled''
   \<and> trim (cleanTitle ''<think>only reasoning</think>  \<newline> '') =
       cleanTitle ''<think>only reasoning</think>  \<newline> ''
   \<and> length (cleanTitle ''<think>only reasoning</think>  \<newline> '') \<le> 100"
proof -
  have e: "cleanTitle ''<think>only reasoning</think>  \<newline> '' = ''Untitled''"
    by (simp add: cleanTitle_def trim_def is_space_def)
  from cleanTitle_postcondition [of "''<think>only reasoning</think>  \<newline> ''"] e
  show ?thesis by (simp only: simp_thms)
qed

section \<open>UpdateCoordinator: counters, threshold, failures of a run\<close>

lemma onIdle_step:
  assumes "\<not> isSubagentSession env s"
  shows "counts_after (onIdle env pr cfg tbl s) = tbl(s \<mapsto> idle_count tbl s + 1)"
    and "dispatched (onIdle env pr cfg tbl s) \<longleftrightarrow>
           (idle_count tbl s + 1) mod updateThreshold cfg = 0"
  using assms
  by (auto simp: onIdle_def event_handler_def Let_def split: prod.splits)

lemma onIdle_sub:
  assumes "isSubagentSession env s"
  shows "counts_after (onIdle env pr cfg tbl s) = tbl"
    and "\<not> dispatched (onIdle env pr cfg tbl s)"
  using assms
  by (auto simp: onIdle_def event_handler_def Let_def split: prod.splits)

lemma idle_run_same:
  assumes "\<not> isSubagentSession env s"
  shows "idle_run env pr cfg tbl (replicate n s) =
           ((if n = 0 then tbl else tbl(s \<mapsto> idle_count tbl s + n)),
            map (\<lambda>k. (idle_count tbl s + k) mod updateThreshold cfg = 0) [1..<Suc n])"
proof (induction n arbitrary: tbl)
  case 0
  show ?case by simp
next
  case (Suc n)
  let ?h = "onIdle env pr cfg tbl s"
  let ?t = "tbl(s \<mapsto> idle_count tbl s + 1)"
  have c: "counts_after ?h = ?t" by (rule onIdle_step(1) [OF assms])
  have d: "dispatched ?h \<longleftrightarrow> (idle_count tbl s + 1) mod updateThreshold cfg = 0"
    by (rule onIdle_step(2) [OF assms])
  have m: "map (\<lambda>k. (idle_count tbl s + k) mod updateThreshold cfg = 0) [1..<Suc (Suc n)] =
        ((idle_count tbl s + 1) mod updateThreshold cfg = 0) #
        map (\<lambda>k. (idle_count ?t s + k) mod updateThreshold cfg = 0) [1..<Suc n]"
  proof -
    have "[1..<Suc (Suc n)] = 1 # map Suc [1..<Suc n]"
      by (metis One_nat_def map_Suc_upt upt_conv_Cons zero_less_Suc Suc_less_eq)
    then have "map (\<lambda>k. (idle_count tbl s + k) mod updateThreshold cfg = 0) [1..<Suc (Suc n)] =
        ((idle_count tbl s + 1) mod updateThreshold cfg = 0) #
        map (\<lambda>k. (idle_count tbl s + Suc k) mod updateThreshold cfg = 0) [1..<Suc n]"
      by (simp only: list.map map_map comp_def)
    also have "(\<lambda>k. (idle_count tbl s + Suc k) mod updateThreshold cfg = 0) =
               (\<lambda>k. (idle_count ?t s + k) mod updateThreshold cfg = 0)"
      by (simp add: idle_count_def)
    finally show ?thesis .
  qed
  show ?case
    unfolding replicate_Suc idle_run.simps Let_def c Suc.IH m d
    by (cases n) (simp_all add: fun_eq_iff idle_count_def)
qed

lemma one_in_three:
  "length (filter (\<lambda>b. b) (map (\<lambda>k. (c + k) mod 3 = 0) [1, 2, 3::nat])) = 1"
proof -
  have "c mod 3 = 0 \<or> c mod 3 = 1 \<or> c mod 3 = 2" by arith
  then show ?thesis
  proof (elim disjE)
    assume "c mod 3 = 0"
    then have "(c + 1) mod 3 \<noteq> 0" "(c + 2) mod 3 \<noteq> 0" "(c + 3) mod 3 = 0" by presburger+
    then show ?thesis by simp
  next
    assume "c mod 3 = 1"
    then have "(c + 1) mod 3 \<noteq> 0" "(c + 2) mod 3 = 0" "(c + 3) mod 3 \<noteq> 0" by presburger+
    then show ?thesis by simp
  next
    assume "c mod 3 = 2"
    then have "(c + 1) mod 3 = 0" "(c + 2) mod 3 \<noteq> 0" "(c + 3) mod 3 \<noteq> 0" by presburger+
    then show ?thesis by simp
  qed
qed

lemma three_runs:
  assumes "\<not> isSubagentSession env s" "updateThreshold cfg = 3"
  shows "length (filter (\<lambda>b. b) (snd (idle_run env pr cfg tbl (replicate 3 s)))) = 1"
proof -
  have up3: "[Suc 0..<4] = [1, 2, 3]"
    by (simp add: upt_rec)
  have "snd (idle_run env pr cfg tbl (replicate 3 s)) =
          map (\<lambda>k. (idle_count tbl s + k) mod 3 = 0) [1, 2, 3]"
    using assms(2) by (simp add: idle_run_same [OF assms(1)] up3)
  then show ?thesis by (simp only: one_in_three)
qed

lemma onIdle_run:
  assumes "\<not> isSubagentSession env s"
  shows "run_of (onIdle env pr cfg tbl s) =
           (if (idle_count tbl s + 1) mod updateThreshold cfg = 0
            then Some (updateSessionTitle env pr cfg s) else None)"
    and "effects_of (onIdle env pr cfg tbl s) =
           (if (idle_count tbl s + 1) mod updateThreshold cfg = 0
            then fst (updateSessionTitle env pr cfg s) else [])"
  using assms
  by (auto simp: onIdle_def event_handler_def Let_def)

lemma upt_shift: "map f [1..<Suc (Suc n)] = f 1 # map (\<lambda>k. f (Suc k)) [1..<Suc n]"
proof -
  have "[1..<Suc (Suc n)] = 1 # map Suc [1..<Suc n]"
    by (metis One_nat_def map_Suc_upt upt_conv_Cons zero_less_Suc Suc_less_eq)
  then show ?thesis by (simp only: list.map map_map comp_def)
qed

lemma idle_run_runs_same:
  assumes "\<not> isSubagentSession env s"
  shows "idle_run_runs env pr cfg tbl (replicate n s) =
           map (\<lambda>k. if (idle_count tbl s + k) mod updateThreshold cfg = 0
                     then Some (updateSessionTitle env pr cfg s) else None) [1..<Suc n]"
proof (induction n arbitrary: tbl)
  case 0
  show ?case by simp
next
  case (Suc n)
  let ?t = "tbl(s \<mapsto> idle_count tbl s + 1)"
  let ?f = "\<lambda>t k. if (idle_count t s + k) mod updateThreshold cfg = 0
                     then Some (updateSessionTitle env pr cfg s) else None"
  have c: "counts_after (onIdle env pr cfg tbl s) = ?t" by (rule onIdle_step(1) [OF assms])
  have r: "run_of (onIdle env pr cfg tbl s) = ?f tbl 1"
    by (rule onIdle_run(1) [OF assms])
  have sh: "(\<lambda>k. ?f tbl (Suc k)) = ?f ?t"
    by (simp add: idle_count_def)
  have "idle_run_runs env pr cfg tbl (replicate (Suc n) s) =
          ?f tbl 1 # map (?f ?t) [1..<Suc n]"
    unfolding replicate_Suc idle_run_runs.simps Let_def c r Suc.IH ..
  also have "\<dots> = ?f tbl 1 # map (\<lambda>k. ?f tbl (Suc k)) [1..<Suc n]"
    by (simp only: sh)
  also have "\<dots> = map (?f tbl) [1..<Suc (Suc n)]"
    by (rule upt_shift [symmetric])
  finally show ?case .
qed

lemma one_run_in_three:
  "length (filter (\<lambda>r. r \<noteq> None)
     (map (\<lambda>k. if (c + k) mod 3 = 0 then Some x else None) [1, 2, 3::nat])) = 1"
proof -
  have "c mod 3 = 0 \<or> c mod 3 = 1 \<or> c mod 3 = 2" by arith
  then show ?thesis
  proof (elim disjE)
    assume "c mod 3 = 0"
    then have "(c + 1) mod 3 \<noteq> 0" "(c + 2) mod 3 \<noteq> 0" "(c + 3) mod 3 = 0" by presburger+
    then show ?thesis by simp
  next
    assume "c mod 3 = 1"
    then have "(c + 1) mod 3 \<noteq> 0" "(c + 2) mod 3 = 0" "(c + 3) mod 3 \<noteq> 0" by presburger+
    then show ?thesis by simp
  next
    assume "c mod 3 = 2"
    then have "(c + 1) mod 3 = 0" "(c + 2) mod 3 \<noteq> 0" "(c + 3) mod 3 \<noteq> 0" by presburger+
    then show ?thesis by simp
  qed
qed

lemma three_runs_dispatched:
  assumes "\<not> isSubagentSession env s" "updateThreshold cfg = 3"
  shows "length (filter (\<lambda>r. r \<noteq> None) (idle_run_runs env pr cfg tbl (replicate 3 s))) = 1"
proof -
  have up3: "[Suc 0..<4] = [1, 2, 3]"
    by (simp add: upt_rec)
  have "idle_run_runs env pr cfg tbl (replicate 3 s) =
          map (\<lambda>k. if (idle_count tbl s + k) mod 3 = 0
                    then Some (updateSessionTitle env pr cfg s) else None) [1, 2, 3]"
    using assms(2) by (simp add: idle_run_runs_same [OF assms(1)] up3)
  then show ?thesis by (simp only: one_run_in_three)
qed

lemma demo_run:
  "updateSessionTitle demo_env [] demo_config ''s1'' =
     ([ShowToast ''Smart Title: Model fallback''
         ''openai/gpt-5-mini failed\<newline>Using anthropic/claude-haiku-4-5'',
       SessionUpdate ''s1'' ''Fixing bug''], Inr ())"
proof -
  have ex: "extractSmartContext demo_messages =
     [\<lparr>user_text = ''fix the login bug'', user_time = 1,
       assistant = Some \<lparr>first_a = ''Looking at it'', last_a = ''Looking at it'', time_a = 2\<rparr>\<rparr>,
      \<lparr>user_text = ''thanks'', user_time = 3, assistant = None\<rparr>]"
    by (simp add: extractSmartContext_def demo_messages_def Let_def extractTextOnly_def
          trim_def is_space_def attach_def)
  have sel: "snd (selectModel (loadAuthProvider demo_env) (getLanguageModel demo_env)
                         (listProviders demo_env) True (cmodel demo_config)) =
        Inr \<lparr>model = 7, info = \<lparr>providerID = ''anthropic'', modelID = ''claude-haiku-4-5''\<rparr>,
             source = Fallback, reason = Some ''Using anthropic/claude-haiku-4-5'',
             failedModel = Some \<lparr>providerID = ''openai'', modelID = ''gpt-5-mini''\<rparr>\<rparr>"
    by (simp add: selectModel_def fallback_phase_def demo_env_def demo_registry_def
          demo_config_def PROVIDER_PRIORITY_def FALLBACK_MODELS_def)
  have ct: "cleanTitle ''<think>reasoning</think>Fixing bug\<newline>Extra line'' = ''Fixing bug''"
    by (simp add: cleanTitle_def trim_def is_space_def)
  have g: "generateTitleFromContext demo_env [] ctx (cmodel demo_config) =
     ([ShowToast ''Smart Title: Model fallback''
         ''openai/gpt-5-mini failed\<newline>Using anthropic/claude-haiku-4-5''],
      Some ''Fixing bug'')" for ctx
    unfolding generateTitleFromContext_def sel
    by (simp add: demo_env_def ct)
  have m: "session_messages demo_env ''s1'' = Inr demo_messages"
    "session_update demo_env ''s1'' ''Fixing bug'' = Inr ()"
    by (simp_all add: demo_env_def)
  show ?thesis
    unfolding updateSessionTitle_def updateSessionTitle_try_def m
    by (simp add: ex g m)
qed

text \<open>
  C3. Every \<open>onIdle\<close> call on a session that is not a sub-session sets the session's
  counter to its old value (0 when absent) plus one, and runs \<open>updateSessionTitle\<close> for
  that session exactly when the new counter is a multiple of the positive threshold: the
  run of the call is then the run of \<open>updateSessionTitle\<close> and its effects are the
  effects of the call, and otherwise there is no run and no effect. Over \<open>n\<close> calls in a
  row the counter ends at the old value plus \<open>n\<close> and call \<open>k\<close> runs the pipeline exactly
  when old value plus \<open>k\<close> is a multiple of the threshold. With threshold 3 any three
  calls in a row run it exactly once, and for a fresh session that is the third call;
  with threshold 1 every call runs it.
\<close>

theorem onIdle_threshold:
  assumes "\<not> isSubagentSession env s" and "0 < updateThreshold cfg"
  shows "counts_after (onIdle env pr cfg tbl s) s = Some (idle_count tbl s + 1)
       \<and> (dispatched (onIdle env pr cfg tbl s) \<longleftrightarrow>
            (idle_count tbl s + 1) mod updateThreshold cfg = 0)
       \<and> run_of (onIdle env pr cfg tbl s) =
            (if (idle_count tbl s + 1) mod updateThreshold cfg = 0
             then Some (updateSessionTitle env pr cfg s) else None)
       \<and> effects_of (onIdle env pr cfg tbl s) =
            (if (idle_count tbl s + 1) mod updateThreshold cfg = 0
             then fst (updateSessionTitle env pr cfg s) else [])
       \<and> fst (idle_run env pr cfg tbl (replicate n s)) s =
            (if n = 0 then tbl s else Some (idle_count tbl s + n))
       \<and> snd (idle_run env pr cfg tbl (replicate n s)) =
            map (\<lambda>k. (idle_count tbl s + k) mod updateThreshold cfg = 0) [1..<Suc n]
       \<and> idle_run_runs env pr cfg tbl (replicate n s) =
            map (\<lambda>k. if (idle_count tbl s + k) mod updateThreshold cfg = 0
                      then Some (updateSessionTitle env pr cfg s) else None) [1..<Suc n]
       \<and> (updateThreshold cfg = 3 \<longrightarrow>
            length (filter (\<lambda>b. b) (snd (idle_run env pr cfg tbl (replicate 3 s)))) = 1
            \<and> length (filter (\<lambda>r. r \<noteq> None)
                 (idle_run_runs env pr cfg tbl (replicate 3 s))) = 1)
       \<and> (updateThreshold cfg = 3 \<and> tbl s = None \<longrightarrow>
            snd (idle_run env pr cfg tbl (replicate 3 s)) = [False, False, True]
            \<and> idle_run_runs env pr cfg tbl (replicate 3 s) =
                [None, None, Some (updateSessionTitle env pr cfg s)])
       \<and> (updateThreshold cfg = 1 \<longrightarrow>
            snd (idle_run env pr cfg tbl (replicate n s)) = replicate n True
            \<and> idle_run_runs env pr cfg tbl (replicate n s) =
                replicate n (Some (updateSessionTitle env pr cfg s)))"
proof -
  have up3: "[Suc 0..<4] = [1, 2, 3]"
    by (simp add: upt_rec)
  have a: "counts_after (onIdle env pr cfg tbl s) s = Some (idle_count tbl s + 1)"
    by (simp add: onIdle_step(1) [OF assms(1)])
  have b: "dispatched (onIdle env pr cfg tbl s) \<longleftrightarrow>
             (idle_count tbl s + 1) mod updateThreshold cfg = 0"
    by (rule onIdle_step(2) [OF assms(1)])
  have r: "run_of (onIdle env pr cfg tbl s) =
            (if (idle_count tbl s + 1) mod updateThreshold cfg = 0
             then Some (updateSessionTitle env pr cfg s) else None)"
    by (rule onIdle_run(1) [OF assms(1)])
  have ef: "effects_of (onIdle env pr cfg tbl s) =
            (if (idle_count tbl s + 1) mod updateThreshold cfg = 0
             then fst (updateSessionTitle env pr cfg s) else [])"
    by (rule onIdle_run(2) [OF assms(1)])
  have c: "fst (idle_run env pr cfg tbl (replicate n s)) s =
             (if n = 0 then tbl s else Some (idle_count tbl s + n))"
    by (simp add: idle_run_same [OF assms(1)])
  have d: "snd (idle_run env pr cfg tbl (replicate n s)) =
             map (\<lambda>k. (idle_count tbl s + k) mod updateThreshold cfg = 0) [1..<Suc n]"
    by (simp add: idle_run_same [OF assms(1)])
  have dr: "idle_run_runs env pr cfg tbl (replicate n s) =
            map (\<lambda>k. if (idle_count tbl s + k) mod updateThreshold cfg = 0
                      then Some (updateSessionTitle env pr cfg s) else None) [1..<Suc n]"
    by (rule idle_run_runs_same [OF assms(1)])
  have g: "updateThreshold cfg = 3 \<longrightarrow>
            length (filter (\<lambda>b. b) (snd (idle_run env pr cfg tbl (replicate 3 s)))) = 1
            \<and> length (filter (\<lambda>r. r \<noteq> None)
                 (idle_run_runs env pr cfg tbl (replicate 3 s))) = 1"
    using three_runs [OF assms(1)] three_runs_dispatched [OF assms(1)] by blast
  have e: "updateThreshold cfg = 3 \<and> tbl s = None \<longrightarrow>
            snd (idle_run env pr cfg tbl (replicate 3 s)) = [False, False, True]
            \<and> idle_run_runs env pr cfg tbl (replicate 3 s) =
                [None, None, Some (updateSessionTitle env pr cfg s)]"
    by (simp add: idle_run_same [OF assms(1)] idle_run_runs_same [OF assms(1)] up3
          idle_count_def)
  have f: "updateThreshold cfg = 1 \<longrightarrow>
            snd (idle_run env pr cfg tbl (replicate n s)) = replicate n True
            \<and> idle_run_runs env pr cfg tbl (replicate n s) =
                replicate n (Some (updateSessionTitle env pr cfg s))"
    by (simp add: idle_run_same [OF assms(1)] idle_run_runs_same [OF assms(1)]
          map_replicate_const del: upt_Suc)
  show ?thesis
    by (intro conjI) (rule a b r ef c d dr g e f)+
qed

theorem onIdle_threshold_witness:
  "\<not> isSubagentSession demo_env ''s1'' \<and> 0 < updateThreshold demo_config
   \<and> counts_after (onIdle demo_env [] demo_config Map.empty ''s1'') ''s1'' = Some 1
   \<and> snd (idle_run demo_env [] demo_config Map.empty (replicate 3 ''s1'')) =
       [False, False, True]
   \<and> idle_run_runs demo_env [] demo_config Map.empty (replicate 3 ''s1'') =
       [None, None,
        Some ([ShowToast ''Smart Title: Model fallback''
                 ''openai/gpt-5-mini failed\<newline>Using anthropic/claude-haiku-4-5'',
               SessionUpdate ''s1'' ''Fixing bug''], Inr ())]"
proof -
  have h1: "\<not> isSubagentSession demo_env ''s1''"
    by (simp add: isSubagentSession_def demo_env_def)
  have h2: "0 < updateThreshold demo_config"
    by (simp add: demo_config_def)
  have h3: "updateThreshold demo_config = 3 \<and> (Map.empty :: counters) ''s1'' = None"
    by (simp add: demo_config_def)
  have up3: "[Suc 0..<4] = [1, 2, 3]"
    by (simp add: upt_rec)
  from onIdle_threshold [OF h1 h2, of "[]" Map.empty 3] h1 h2 h3
  show ?thesis by (simp add: idle_count_def up3 demo_run)
qed

text \<open>
  C10. An \<open>onIdle\<close> call for session \<open>s\<close> leaves the counter of every other session as
  it was, and when \<open>s\<close> is a sub-session it leaves the whole table as it was: the
  increment comes after the sub-session check.
\<close>

theorem onIdle_frame:
  "(t \<noteq> s \<longrightarrow> counts_after (onIdle env pr cfg tbl s) t = tbl t)
   \<and> (isSubagentSession env s \<longrightarrow> counts_after (onIdle env pr cfg tbl s) = tbl)"
proof (cases "isSubagentSession env s")
  case True
  then show ?thesis by (simp add: onIdle_sub(1))
next
  case False
  then show ?thesis by (simp add: onIdle_step(1))
qed

theorem onIdle_frame_witness:
  "''s2'' \<noteq> ''s1''
   \<and> counts_after (onIdle demo_env [] demo_config [''s2'' \<mapsto> 5] ''s1'') ''s2'' = Some 5
   \<and> isSubagentSession demo_env ''child''
   \<and> counts_after (onIdle demo_env [] demo_config [''child'' \<mapsto> 2] ''child'') =
       [''child'' \<mapsto> 2]"
proof -
  have h: "isSubagentSession demo_env ''child''"
    by (simp add: isSubagentSession_def demo_env_def)
  from onIdle_frame [of "''s2''" "''s1''" demo_env "[]" demo_config "[''s2'' \<mapsto> 5]"]
       onIdle_frame [of "''s2''" "''child''" demo_env "[]" demo_config "[''child'' \<mapsto> 2]"] h
  show ?thesis by simp
qed

lemma generate_effects:
  "\<not> list_ex is_update (fst (generateTitleFromContext env pr ctx cm))"
  by (auto simp: generateTitleFromContext_def Let_def split: sum.splits option.splits)

lemma generate_title:
  "snd (generateTitleFromContext env pr ctx cm) =
     (case snd (selectModel (loadAuthProvider env) (getLanguageModel env) (listProviders env)
                  True cm) of
        Inl _ \<Rightarrow> None
      | Inr sel \<Rightarrow>
          (case generateText env (model sel) (generation_prompt pr ctx) of
             Inl _ \<Rightarrow> None
           | Inr text \<Rightarrow> Some (cleanTitle text)))"
  by (auto simp: generateTitleFromContext_def Let_def split: sum.splits option.splits)

lemma update_try_failure:
  assumes "stage_failure env pr cfg sid"
  shows "\<not> list_ex is_update (fst (updateSessionTitle_try env pr cfg sid))"
proof (cases "session_messages env sid")
  case (Inl e)
  then show ?thesis by (simp add: updateSessionTitle_try_def)
next
  case (Inr messages)
  show ?thesis
  proof (cases "extractSmartContext messages = []")
    case True
    with Inr show ?thesis by (simp add: updateSessionTitle_try_def)
  next
    case False
    let ?ctx = "formatContextForTitle (extractSmartContext messages) (maxTurns cfg)
                  (maxCharsPerMessage cfg)"
    let ?g = "generateTitleFromContext env pr ?ctx (cmodel cfg)"
    from assms Inr False have "snd ?g = None"
      by (auto simp: stage_failure_def generate_title split: sum.splits)
    then obtain effs where g: "?g = (effs, None)" by (cases ?g) auto
    with generate_effects [of env pr ?ctx "cmodel cfg"] have "\<not> list_ex is_update effs" by simp
    with Inr False g show ?thesis by (simp add: updateSessionTitle_try_def)
  qed
qed

lemma update_try_success:
  assumes "\<not> stage_failure env pr cfg sid"
  shows "length (filter is_update (fst (updateSessionTitle_try env pr cfg sid))) = 1"
proof -
  from assms obtain messages where m: "session_messages env sid = Inr messages"
    by (cases "session_messages env sid") (auto simp: stage_failure_def)
  with assms have ne: "extractSmartContext messages \<noteq> []"
    by (auto simp: stage_failure_def)
  let ?ctx = "formatContextForTitle (extractSmartContext messages) (maxTurns cfg)
                (maxCharsPerMessage cfg)"
  let ?g = "generateTitleFromContext env pr ?ctx (cmodel cfg)"
  from assms m ne obtain sel where
    sel: "snd (selectModel (loadAuthProvider env) (getLanguageModel env) (listProviders env)
                True (cmodel cfg)) = Inr sel"
    by (cases "snd (selectModel (loadAuthProvider env) (getLanguageModel env)
                      (listProviders env) True (cmodel cfg))")
       (auto simp: stage_failure_def)
  with assms m ne obtain raw where
    "generateText env (model sel) (generation_prompt pr ?ctx) = Inr raw"
    by (cases "generateText env (model sel) (generation_prompt pr ?ctx)")
       (auto simp: stage_failure_def)
  with sel have "snd ?g = Some (cleanTitle raw)"
    by (simp add: generate_title)
  then obtain effs where g: "?g = (effs, Some (cleanTitle raw))" by (cases ?g) auto
  with generate_effects [of env pr ?ctx "cmodel cfg"] have "filter is_update effs = []"
    by (simp add: list_ex_iff filter_empty_conv)
  with m ne g cleanTitle_nonempty [of raw] show ?thesis
    by (simp add: updateSessionTitle_try_def split: sum.splits)
qed

lemma updateSessionTitle_fst:
  "fst (updateSessionTitle env pr cfg sid) = fst (updateSessionTitle_try env pr cfg sid)"
  by (simp add: updateSessionTitle_def split: prod.splits sum.splits)

lemma updateSessionTitle_snd: "snd (updateSessionTitle env pr cfg sid) = Inr ()"
  by (simp add: updateSessionTitle_def split: prod.splits sum.splits)

lemma handler_outcome: "outcome (event_handler env pr cfg tbl ev) = Inr ()"
  by (simp add: event_handler_def Let_def split: event.splits prod.splits)

lemma handler_effects:
  "effects_of (event_handler env pr cfg tbl ev) = [] \<or>
   (\<exists>st sid. ev = SessionStatus st sid \<and>
      effects_of (event_handler env pr cfg tbl ev) = fst (updateSessionTitle env pr cfg sid))"
  by (auto simp: event_handler_def Let_def split: event.splits prod.splits)

text \<open>
  C8. The event handler always returns normally, and so does \<open>updateSessionTitle\<close>.
  When a stage of a triggered run fails (the messages cannot be fetched, there is no
  turn, the model selection is exhausted, or the generation call fails; \<open>cleanTitle\<close>
  itself cannot fail) the run never calls \<open>session.update\<close>, so the title stays as it
  was. When no stage fails the run calls \<open>session.update\<close> exactly once.
\<close>

theorem pipeline_failure_silent:
  "outcome (event_handler env pr cfg tbl ev) = Inr ()
   \<and> snd (updateSessionTitle env pr cfg sid) = Inr ()
   \<and> (stage_failure env pr cfg sid \<longrightarrow>
        \<not> list_ex is_update (fst (updateSessionTitle env pr cfg sid))
        \<and> \<not> list_ex is_update (effects_of (onIdle env pr cfg tbl sid)))
   \<and> (\<not> stage_failure env pr cfg sid \<longrightarrow>
        length (filter is_update (fst (updateSessionTitle env pr cfg sid))) = 1)"
proof -
  have a: "outcome (event_handler env pr cfg tbl ev) = Inr ()" by (rule handler_outcome)
  have b: "snd (updateSessionTitle env pr cfg sid) = Inr ()" by (rule updateSessionTitle_snd)
  have c: "stage_failure env pr cfg sid \<longrightarrow>
        \<not> list_ex is_update (fst (updateSessionTitle env pr cfg sid))
        \<and> \<not> list_ex is_update (effects_of (onIdle env pr cfg tbl sid))"
  proof
    assume f: "stage_failure env pr cfg sid"
    then have u: "\<not> list_ex is_update (fst (updateSessionTitle env pr cfg sid))"
      by (simp only: updateSessionTitle_fst update_try_failure not_False_eq_True)
    from handler_effects [of env pr cfg tbl "SessionStatus ''idle'' sid"] u
    have "\<not> list_ex is_update (effects_of (onIdle env pr cfg tbl sid))"
      by (auto simp: onIdle_def)
    with u show "\<not> list_ex is_update (fst (updateSessionTitle env pr cfg sid))
        \<and> \<not> list_ex is_update (effects_of (onIdle env pr cfg tbl sid))" by simp
  qed
  have d: "\<not> stage_failure env pr cfg sid \<longrightarrow>
        length (filter is_update (fst (updateSessionTitle env pr cfg sid))) = 1"
    by (simp only: updateSessionTitle_fst) (simp add: update_try_success)
  show ?thesis by (intro conjI) (rule a b c d)+
qed

theorem pipeline_failure_silent_witness:
  "stage_failure demo_env ''P'' demo_config ''gone''
   \<and> updateSessionTitle demo_env ''P'' demo_config ''gone'' = ([], Inr ())
   \<and> \<not> stage_failure demo_env ''P'' demo_config ''s1''
   \<and> length (filter is_update (fst (updateSessionTitle demo_env ''P'' demo_config ''s1''))) = 1"
proof -
  have f: "stage_failure demo_env ''P'' demo_config ''gone''"
    by (simp add: stage_failure_def demo_env_def)
  have u: "updateSessionTitle demo_env ''P'' demo_config ''gone'' = ([], Inr ())"
    by (simp add: updateSessionTitle_def updateSessionTitle_try_def demo_env_def)
  have ex: "extractSmartContext demo_messages \<noteq> []"
    by (simp add: extractSmartContext_def demo_messages_def Let_def)
  have sel: "isl (snd (selectModel (loadAuthProvider demo_env) (getLanguageModel demo_env)
                         (listProviders demo_env) True (cmodel demo_config))) = False"
    by (simp add: selectModel_def fallback_phase_def demo_env_def demo_registry_def
          demo_config_def PROVIDER_PRIORITY_def FALLBACK_MODELS_def)
  have s: "\<not> stage_failure demo_env ''P'' demo_config ''s1''"
    using ex sel
    by (auto simp: stage_failure_def split: sum.splits) (simp_all add: demo_env_def)
  from pipeline_failure_silent [of demo_env "''P''" demo_config Map.empty "OtherEvent []" "''gone''"]
       pipeline_failure_silent [of demo_env "''P''" demo_config Map.empty "OtherEvent []" "''s1''"] f u s
  show ?thesis by simp
qed

end
